theory Spec2Isabelle
  imports Main "HOL-Library.Word" "HOL-Library.Sublist"
begin

section \<open>The OpenTSDB raw encoder of heka-tsutils-plugins\<close>

text \<open>
  A shallow embedding of \<^verbatim>\<open>externals/opentsdb/opentsdb_raw_encoder.go\<close>: the
  configuration and encoder structs, \<^verbatim>\<open>Init\<close> and \<^verbatim>\<open>Encode\<close>. Go strings are byte
  sequences, modelled as \<^typ>\<open>string\<close>; \<^verbatim>\<open>int64\<close> is \<^typ>\<open>64 word\<close> read with
  \<^const>\<open>sint\<close>; the dedupe map is a partial function; the error return and the run-time
  panics of \<^verbatim>\<open>Encode\<close> are values of a sum type.
\<close>

subsection \<open>The Go library functions the encoder calls\<close>

text \<open>
  \<^verbatim>\<open>utf8.DecodeRuneInString\<close>: the first code point of a byte string and its width.
  An empty string gives \<^verbatim>\<open>(RuneError, 0)\<close>, an invalid or truncated sequence
  \<^verbatim>\<open>(RuneError, 1)\<close>.
\<close>

definition RuneError :: nat where
  "RuneError = 65533"

definition cont_byte :: "nat \<Rightarrow> bool" where
  "cont_byte b = (128 \<le> b \<and> b \<le> 191)"

fun DecodeRuneInString :: "string \<Rightarrow> nat \<times> nat" where
  "DecodeRuneInString [] = (RuneError, 0)"
| "DecodeRuneInString (c0 # rest) =
     (let s0 = (of_char c0 :: nat) in
      if s0 < 128 then (s0, 1)
      else if s0 < 194 \<or> 244 < s0 then (RuneError, 1)
      else
        let sz = (if s0 < 224 then 2 else if s0 < 240 then 3 else 4 :: nat);
            lo = (if s0 = 224 then 160 else if s0 = 240 then 144 else 128 :: nat);
            hi = (if s0 = 237 then 159 else if s0 = 244 then 143 else 191 :: nat)
        in
          if length (c0 # rest) < sz then (RuneError, 1)
          else
            let s1 = (of_char (rest ! 0) :: nat) in
            if s1 < lo \<or> hi < s1 then (RuneError, 1)
            else if sz \<le> 2 then ((s0 mod 32) * 64 + s1 mod 64, 2)
            else
              let s2 = (of_char (rest ! 1) :: nat) in
              if \<not> cont_byte s2 then (RuneError, 1)
              else if sz \<le> 3 then ((s0 mod 16) * 4096 + (s1 mod 64) * 64 + s2 mod 64, 3)
              else
                let s3 = (of_char (rest ! 2) :: nat) in
                if \<not> cont_byte s3 then (RuneError, 1)
                else ((s0 mod 8) * 262144 + (s1 mod 64) * 4096 + (s2 mod 64) * 64
                        + s3 mod 64, 4))"

text \<open>The width of the first code point of a non-empty string: at least one byte.\<close>

definition rune_width :: "string \<Rightarrow> nat" where
  "rune_width s = snd (DecodeRuneInString s)"

lemma rune_width_pos: "s \<noteq> [] \<Longrightarrow> 0 < rune_width s"
  by (cases s) (simp_all add: rune_width_def Let_def)

text \<open>\<^verbatim>\<open>for _, r := range s\<close>: the code points of a string, in order.\<close>

function runes :: "string \<Rightarrow> nat list" where
  "runes s = (if s = [] then []
              else fst (DecodeRuneInString s) # runes (drop (rune_width s) s))"
  by pat_completeness auto
termination
  by (relation "measure length") (use rune_width_pos in \<open>auto simp: Suc_le_eq\<close>)

declare runes.simps [simp del]

text \<open>
  \<^verbatim>\<open>strings.TrimLeft(s, cutset)\<close>: \<^verbatim>\<open>s\<close> with all leading code points contained in
  \<^verbatim>\<open>cutset\<close> removed. The loop decodes the first code point, tests
  \<^verbatim>\<open>ContainsRune(cutset, r)\<close> and cuts it off, until the test fails or
  \<^verbatim>\<open>s\<close> is empty.
\<close>

function trimLeftUnicode :: "string \<Rightarrow> nat list \<Rightarrow> string" where
  "trimLeftUnicode s rs =
     (if s = [] then []
      else if fst (DecodeRuneInString s) \<in> set rs
        then trimLeftUnicode (drop (rune_width s) s) rs
      else s)"
  by pat_completeness auto
termination
  by (relation "measure (\<lambda>(s, rs). length s)") (use rune_width_pos in \<open>auto simp: Suc_le_eq\<close>)

declare trimLeftUnicode.simps [simp del]

definition TrimLeft :: "string \<Rightarrow> string \<Rightarrow> string" where
  "TrimLeft s cutset =
     (if s = [] \<or> cutset = [] then s else trimLeftUnicode s (runes cutset))"

text \<open>\<^verbatim>\<open>strings.HasPrefix(s, prefix)\<close>, on bytes.\<close>

definition HasPrefix :: "string \<Rightarrow> string \<Rightarrow> bool" where
  "HasPrefix s pre = prefix pre s"

text \<open>
  \<^verbatim>\<open>strings.TrimPrefix\<close> is what the encoder does \<^emph>\<open>not\<close> call; it is here only to
  contrast it with \<^const>\<open>TrimLeft\<close>.
\<close>

definition TrimPrefix :: "string \<Rightarrow> string \<Rightarrow> string" where
  "TrimPrefix s pre = (if HasPrefix s pre then drop (length pre) s else s)"

text \<open>\<^verbatim>\<open>strings.Index(s, sep)\<close>: the byte offset of the first occurrence, if any.\<close>

fun Index :: "string \<Rightarrow> string \<Rightarrow> nat option" where
  "Index [] sep = (if sep = [] then Some 0 else None)"
| "Index (c # cs) sep =
     (if prefix sep (c # cs) then Some 0 else map_option Suc (Index cs sep))"

lemma Index_bound: "Index s sep = Some m \<Longrightarrow> m + length sep \<le> length s"
proof (induction s arbitrary: m)
  case Nil
  then show ?case by (simp split: if_splits)
next
  case (Cons c cs)
  show ?case
  proof (cases "prefix sep (c # cs)")
    case True
    with Cons.prems have "m = 0" by simp
    moreover from True have "length sep \<le> length (c # cs)" by (rule prefix_length_le)
    ultimately show ?thesis by simp
  next
    case False
    with Cons.prems obtain k where "Index cs sep = Some k" and "m = Suc k" by auto
    with Cons.IH [of k] show ?thesis by simp
  qed
qed

text \<open>
  \<^verbatim>\<open>explode(s, n)\<close> of package strings, which \<^verbatim>\<open>Split\<close> and \<^verbatim>\<open>SplitN\<close> use for
  an empty separator: one element per code point, the last element taking the rest
  when \<^verbatim>\<open>n\<close> is reached. \<open>None\<close> stands for \<^verbatim>\<open>n < 0\<close> (no limit).
\<close>

function explode_loop :: "string \<Rightarrow> nat \<Rightarrow> string list" where
  "explode_loop s n =
     (if n = 0 then []
      else if n = 1 \<or> s = [] then [s]
      else take (rune_width s) s # explode_loop (drop (rune_width s) s) (n - 1))"
  by pat_completeness auto
termination
  by (relation "measure (\<lambda>(s, n). n)") auto

declare explode_loop.simps [simp del]

definition explode :: "string \<Rightarrow> nat option \<Rightarrow> string list" where
  "explode s n =
     (let l = length (runes s);
          m = (case n of None \<Rightarrow> l | Some k \<Rightarrow> if k > l then l else k)
      in explode_loop s m)"

text \<open>
  \<^verbatim>\<open>strings.Split(s, sep)\<close>: cut at every occurrence of \<^verbatim>\<open>sep\<close>, leftmost first,
  occurrences not overlapping. The result always has at least one element when
  \<^verbatim>\<open>sep\<close> is not empty.
\<close>

function split_loop :: "string \<Rightarrow> string \<Rightarrow> string list" where
  "split_loop s sep =
     (if sep = [] then [s]
      else case Index s sep of
             None \<Rightarrow> [s]
           | Some m \<Rightarrow> take m s # split_loop (drop (m + length sep) s) sep)"
  by pat_completeness auto
termination
proof (relation "measure (\<lambda>(s, sep). length s)")
  show "wf (measure (\<lambda>(s, sep). length s))" by simp
next
  fix s sep :: string and m :: nat
  assume sep: "sep \<noteq> []" and idx: "Index s sep = Some m"
  from idx have "m + length sep \<le> length s" by (rule Index_bound)
  moreover from sep have "0 < length sep" by simp
  ultimately have "length s - (m + length sep) < length s" by arith
  then show "((drop (m + length sep) s, sep), (s, sep)) \<in> measure (\<lambda>(s, sep). length s)"
    by simp
qed

declare split_loop.simps [simp del]

definition Split :: "string \<Rightarrow> string \<Rightarrow> string list" where
  "Split s sep = (if sep = [] then explode s None else split_loop s sep)"

text \<open>
  \<^verbatim>\<open>strings.SplitN(s, sep, 2)\<close>: cut at the first occurrence of \<^verbatim>\<open>sep\<close> only.
\<close>

definition SplitN2 :: "string \<Rightarrow> string \<Rightarrow> string list" where
  "SplitN2 s sep =
     (if sep = [] then explode s (Some 2)
      else case Index s sep of
             None \<Rightarrow> [s]
           | Some m \<Rightarrow> [take m s, drop (m + length sep) s])"

text \<open>
  \<^verbatim>\<open>strings.ToLower\<close>. The encoder only compares the result with \<^verbatim>\<open>"host"\<close>, and
  the only code points that Unicode lower-cases to \<^verbatim>\<open>h\<close>, \<^verbatim>\<open>o\<close>, \<^verbatim>\<open>s\<close> or
  \<^verbatim>\<open>t\<close> are these letters and their ASCII capitals, so mapping the ASCII capitals
  and leaving every other byte alone decides that comparison as Go does.
\<close>

definition lower_byte :: "char \<Rightarrow> char" where
  "lower_byte c =
     (let n = (of_char c :: nat) in if 65 \<le> n \<and> n \<le> 90 then char_of (n + 32) else c)"

definition ToLower :: "string \<Rightarrow> string" where
  "ToLower s = map lower_byte s"

text \<open>\<^verbatim>\<open>fmt.Sprint\<close> of an \<^verbatim>\<open>int64\<close>: decimal digits, a minus sign when negative.\<close>

function nat_digits :: "nat \<Rightarrow> string" where
  "nat_digits n =
     (if n < 10 then [char_of (48 + n)]
      else nat_digits (n div 10) @ [char_of (48 + n mod 10)])"
  by pat_completeness auto
termination
  by (relation "measure id") auto

declare nat_digits.simps [simp del]

definition itoa :: "int \<Rightarrow> string" where
  "itoa i = (if i < 0 then CHR ''-'' # nat_digits (nat (- i)) else nat_digits (nat i))"

subsection \<open>Field values\<close>

text \<open>
  Modelled from the spec: the type of a field's value. \<^verbatim>\<open>GetFieldValue\<close> and
  \<^verbatim>\<open>GetValue\<close> return an \<^verbatim>\<open>interface{}\<close> whose dynamic types are declared in
  heka's message package, which is not part of this repository; the spec's data model
  gives the variants text, integer and floating point. An integer is an \<^verbatim>\<open>int64\<close>, a
  float is a \<^verbatim>\<open>float64\<close>, kept as its 64 bits.
\<close>

datatype fvalue = VString string | VInteger "64 word" | VDouble "64 word"

text \<open>
  \<^verbatim>\<open>==\<close> on two \<^verbatim>\<open>float64\<close>: a NaN (exponent bits all set, fraction not zero) is
  equal to nothing, the two zeros are equal, every other value is equal to itself only.
\<close>

definition float64_magnitude :: "64 word \<Rightarrow> nat" where
  "float64_magnitude w = unat w mod 2 ^ 63"

definition float64_isNaN :: "64 word \<Rightarrow> bool" where
  "float64_isNaN w = (9218868437227405312 < float64_magnitude w)"

definition float64_eq :: "64 word \<Rightarrow> 64 word \<Rightarrow> bool" where
  "float64_eq a b =
     (\<not> float64_isNaN a \<and> \<not> float64_isNaN b \<and>
      (a = b \<or> (float64_magnitude a = 0 \<and> float64_magnitude b = 0)))"

text \<open>
  \<^verbatim>\<open>==\<close> on two \<^verbatim>\<open>interface{}\<close> values: the same dynamic type and equal values.
  All three dynamic types are comparable, so the comparison never panics.
\<close>

fun iface_eq :: "fvalue \<Rightarrow> fvalue \<Rightarrow> bool" where
  "iface_eq (VString a) (VString b) = (a = b)"
| "iface_eq (VInteger a) (VInteger b) = (a = b)"
| "iface_eq (VDouble a) (VDouble b) = float64_eq a b"
| "iface_eq _ _ = False"

text \<open>
  \<^verbatim>\<open>fmt.Sprint(v)\<close> and the verb \<^verbatim>\<open>%v\<close>. The decimal form of a \<^verbatim>\<open>float64\<close>
  (\<^verbatim>\<open>strconv\<close>'s shortest \<^verbatim>\<open>%g\<close>) is the parameter \<open>ffmt\<close>.
\<close>

fun Sprint :: "(64 word \<Rightarrow> string) \<Rightarrow> fvalue \<Rightarrow> string" where
  "Sprint ffmt (VString s) = s"
| "Sprint ffmt (VInteger i) = itoa (sint i)"
| "Sprint ffmt (VDouble d) = ffmt d"

text \<open>
  The verb \<^verbatim>\<open>%s\<close> on an \<^verbatim>\<open>interface{}\<close>: a string is written as it is, a number
  as the bad-verb form \<^verbatim>\<open>%!s(int64=5)\<close>.
\<close>

fun Sprintf_s :: "(64 word \<Rightarrow> string) \<Rightarrow> fvalue \<Rightarrow> string" where
  "Sprintf_s ffmt (VString s) = s"
| "Sprintf_s ffmt (VInteger i) = ''%!s(int64='' @ itoa (sint i) @ '')''"
| "Sprintf_s ffmt (VDouble d) = ''%!s(float64='' @ ffmt d @ '')''"

subsection \<open>Messages, configuration and encoder state\<close>

text \<open>
  The part of \<^verbatim>\<open>pipeline.PipelinePack\<close> that \<^verbatim>\<open>Encode\<close> reads: the message's
  fields in order, and its timestamp in nanoseconds.
\<close>

record Message =
  Fields :: "(string \<times> fvalue) list"
  Timestamp :: "64 word"

text \<open>\<^verbatim>\<open>GetFieldValue(name)\<close>: the value of the first field of that name.\<close>

fun find_field :: "(string \<times> fvalue) list \<Rightarrow> string \<Rightarrow> fvalue option" where
  "find_field [] name = None"
| "find_field ((k, v) # fs) name = (if k = name then Some v else find_field fs name)"

definition GetFieldValue :: "Message \<Rightarrow> string \<Rightarrow> fvalue option" where
  "GetFieldValue pack name = find_field (Fields pack) name"

record dedupe =
  data :: string
  skipped :: bool
  ts :: "64 word"
  val :: fvalue

record OpenTsdbRawEncoderConfig =
  TagNamePrefix :: string
  TagValuePrefix :: string
  TsFromMessage :: bool
  FieldsToTags :: bool
  AddHostnameIfMissing :: bool
  DedupeFlush :: "64 word"

record OpenTsdbRawEncoder =
  config :: OpenTsdbRawEncoderConfig
  hostname :: string
  dedupeBuffer :: "string \<rightharpoonup> dedupe"

definition ConfigStruct :: OpenTsdbRawEncoderConfig where
  "ConfigStruct =
     \<lparr>TagNamePrefix = [], TagValuePrefix = [], TsFromMessage = True, FieldsToTags = True,
      AddHostnameIfMissing = True, DedupeFlush = 0\<rparr>"

text \<open>
  \<^verbatim>\<open>Init\<close>; \<open>host\<close> is what \<^verbatim>\<open>os.Hostname()\<close> returned, empty when it failed.
\<close>

definition Init :: "OpenTsdbRawEncoderConfig \<Rightarrow> string \<Rightarrow> OpenTsdbRawEncoder" where
  "Init cfg host =
     \<lparr>config = (if TagNamePrefix cfg \<noteq> [] \<and> TagValuePrefix cfg = []
                then cfg\<lparr>TagValuePrefix := ''.''\<rparr> else cfg),
      hostname = host,
      dedupeBuffer = Map.empty\<rparr>"

text \<open>
  What a call of \<^verbatim>\<open>Encode\<close> can end with besides its output: the error it
  returns, or a run-time panic.
\<close>

datatype error = Errorf string | Panic string

subsection \<open>Encode, lines 78 to 157: rendering the line\<close>

text \<open>
  Lines 90 to 99. With a tag-name prefix the metric is asserted to be a string
  (\<^verbatim>\<open>metric.(string)\<close> panics otherwise) and split; \<^verbatim>\<open>metric_parts[0]\<close> is the
  name and the rest are the embedded tags.
\<close>

definition metric_parts ::
  "(64 word \<Rightarrow> string) \<Rightarrow> string \<Rightarrow> fvalue \<Rightarrow> error + (string \<times> string list)" where
  "metric_parts ffmt tnp metric =
     (if tnp \<noteq> [] then
        (case metric of
           VString s \<Rightarrow>
             (case Split s tnp of
                [] \<Rightarrow> Inl (Panic ''index out of range'')
              | p # tags \<Rightarrow> Inr (p, tags))
         | VInteger i \<Rightarrow>
             Inl (Panic ''interface conversion: interface {} is int64, not string'')
         | VDouble d \<Rightarrow>
             Inl (Panic ''interface conversion: interface {} is float64, not string''))
      else Inr (Sprint ffmt metric, []))"

text \<open>
  Lines 121 to 131, the loop over the embedded tags; the state is the buffer and
  \<^verbatim>\<open>seenHostTag\<close>.
\<close>

fun embedded_tags :: "string \<Rightarrow> string list \<Rightarrow> string \<times> bool \<Rightarrow> string \<times> bool" where
  "embedded_tags tvp [] (buf, seenHostTag) = (buf, seenHostTag)"
| "embedded_tags tvp (tag # tags) (buf, seenHostTag) =
     (let kv = SplitN2 tag tvp in
      if length kv = 2 \<and> kv ! 0 \<noteq> [] \<and> kv ! 1 \<noteq> []
      then embedded_tags tvp tags
             (buf @ kv ! 0 @ ''='' @ kv ! 1, seenHostTag \<or> ToLower (kv ! 0) = ''host'')
      else embedded_tags tvp tags (buf, seenHostTag))"

text \<open>
  Lines 137 to 149, the loop over the message's fields; the state is \<^verbatim>\<open>ftags\<close>
  and \<^verbatim>\<open>seenHostTag\<close>.
\<close>

fun field_tags ::
  "(64 word \<Rightarrow> string) \<Rightarrow> string \<Rightarrow> (string \<times> fvalue) list \<Rightarrow> string \<times> bool
     \<Rightarrow> string \<times> bool" where
  "field_tags ffmt tnp [] (ft, seenHostTag) = (ft, seenHostTag)"
| "field_tags ffmt tnp ((k, v) # fs) (ft, seenHostTag) =
     (if HasPrefix k tnp then
        (if k = ''Metric'' \<or> k = ''Value'' then field_tags ffmt tnp fs (ft, seenHostTag)
         else
           let k' = TrimLeft k tnp in
           field_tags ffmt tnp fs
             (ft @ '' '' @ k' @ ''='' @ Sprint ffmt v, seenHostTag \<or> k' = ''host''))
      else field_tags ffmt tnp fs (ft, seenHostTag))"

text \<open>
  \<^verbatim>\<open>timestamp.Unix()\<close> for a time made by \<^verbatim>\<open>time.Unix(0, ns)\<close>: the seconds,
  rounded towards minus infinity; \<^verbatim>\<open>timestamp.UnixNano()\<close> is \<^verbatim>\<open>ns\<close> again.
\<close>

definition Unix :: "64 word \<Rightarrow> int" where
  "Unix ns = sint ns div 1000000000"

text \<open>
  What the dedupe step reads of the rendering: the buffer, \<^verbatim>\<open>ftags\<close>, the two
  field values and the timestamp.
\<close>

record rendered =
  buf :: string
  ftags :: string
  metric :: fvalue
  fval :: fvalue
  timestamp :: "64 word"

text \<open>
  Lines 78 to 157. \<open>now\<close> is the reading of \<^verbatim>\<open>time.Now()\<close> in nanoseconds, used
  when \<^verbatim>\<open>TsFromMessage\<close> is off.
\<close>

definition render ::
  "(64 word \<Rightarrow> string) \<Rightarrow> 64 word \<Rightarrow> OpenTsdbRawEncoder \<Rightarrow> Message \<Rightarrow> error + rendered" where
  "render ffmt now oe pack =
     (case GetFieldValue pack ''Metric'' of
        None \<Rightarrow> Inl (Errorf ''Unable to find Field[Metric] in message'')
      | Some m \<Rightarrow>
          (case metric_parts ffmt (TagNamePrefix (config oe)) m of
             Inl e \<Rightarrow> Inl e
           | Inr (name, tags) \<Rightarrow>
               let b1 = ''put '' @ name @ '' '';
                   t = (if TsFromMessage (config oe) then Timestamp pack else now);
                   b2 = b1 @ itoa (Unix t) @ '' ''
               in
                 (case GetFieldValue pack ''Value'' of
                    None \<Rightarrow> Inl (Errorf ''Unable to find Field[Value] field in message'')
                  | Some v \<Rightarrow>
                      let b3 = b2 @ Sprint ffmt v;
                          (b4, seen1) = embedded_tags (TagValuePrefix (config oe)) tags (b3, False);
                          (ft, seen2) =
                            (if FieldsToTags (config oe)
                             then field_tags ffmt (TagNamePrefix (config oe)) (Fields pack)
                                    ([], seen1)
                             else ([], seen1));
                          b5 = b4 @ ft;
                          b6 = (if \<not> seen2 \<and> AddHostnameIfMissing (config oe) \<and> hostname oe \<noteq> []
                                then b5 @ '' host='' @ hostname oe else b5);
                          b7 = b6 @ [CHR 0x0A]
                      in Inr \<lparr>buf = b7, ftags = ft, metric = m, fval = v, timestamp = t\<rparr>)))"

subsection \<open>Encode, lines 160 to 191: dedupe\<close>

text \<open>
  \<^verbatim>\<open>timestamp.UnixNano() - oe.dedupeBuffer[bufkey].ts\<close> and
  \<^verbatim>\<open>oe.config.DedupeFlush * 1e9\<close>, both in \<^verbatim>\<open>int64\<close>, where they wrap around.
\<close>

definition elapsed :: "64 word \<Rightarrow> dedupe \<Rightarrow> int" where
  "elapsed t prev = sint (t - ts prev)"

definition window :: "OpenTsdbRawEncoderConfig \<Rightarrow> int" where
  "window cfg = sint (DedupeFlush cfg * 1000000000)"

definition bufkey :: "(64 word \<Rightarrow> string) \<Rightarrow> rendered \<Rightarrow> string" where
  "bufkey ffmt r = Sprintf_s ffmt (metric r) @ '':'' @ ftags r"

text \<open>
  The result is the pair that \<^verbatim>\<open>Encode\<close> returns, \<open>Inr None\<close> for
  \<^verbatim>\<open>(nil, nil)\<close>, and the encoder with its map updated. After the flush branch
  \<^verbatim>\<open>buf\<close> names the concatenation, and that is what line 188 stores.
\<close>

definition dedupe_step ::
  "(64 word \<Rightarrow> string) \<Rightarrow> OpenTsdbRawEncoder \<Rightarrow> rendered
     \<Rightarrow> (error + string option) \<times> OpenTsdbRawEncoder" where
  "dedupe_step ffmt oe r =
     (if 0 < sint (DedupeFlush (config oe)) then
        (case dedupeBuffer oe (bufkey ffmt r) of
           Some prev \<Rightarrow>
             if iface_eq (val prev) (fval r) \<and> elapsed (timestamp r) prev < window (config oe)
             then (Inr None,
                   oe\<lparr>dedupeBuffer := (dedupeBuffer oe)(bufkey ffmt r \<mapsto>
                        \<lparr>data = buf r, skipped = True, ts = ts prev, val = fval r\<rparr>)\<rparr>)
             else
               let out = (if (skipped prev \<or> elapsed (timestamp r) prev \<ge> window (config oe))
                             \<and> \<not> iface_eq (val prev) (fval r)
                          then data prev @ buf r else buf r)
               in (Inr (Some out),
                   oe\<lparr>dedupeBuffer := (dedupeBuffer oe)(bufkey ffmt r \<mapsto>
                        \<lparr>data = out, skipped = False, ts = timestamp r, val = fval r\<rparr>)\<rparr>)
         | None \<Rightarrow>
             (Inr (Some (buf r)),
              oe\<lparr>dedupeBuffer := (dedupeBuffer oe)(bufkey ffmt r \<mapsto>
                   \<lparr>data = buf r, skipped = False, ts = timestamp r, val = fval r\<rparr>)\<rparr>))
      else (Inr (Some (buf r)), oe))"

definition Encode ::
  "(64 word \<Rightarrow> string) \<Rightarrow> 64 word \<Rightarrow> OpenTsdbRawEncoder \<Rightarrow> Message
     \<Rightarrow> (error + string option) \<times> OpenTsdbRawEncoder" where
  "Encode ffmt now oe pack =
     (case render ffmt now oe pack of
        Inl e \<Rightarrow> (Inl e, oe)
      | Inr r \<Rightarrow> dedupe_step ffmt oe r)"

text \<open>
  The spec's words for the trim of a promoted field's name: "repeatedly strip leading
  characters that appear in the prefix string". \<open>strips rs s s'\<close> says that \<open>s'\<close>
  is what is left of \<open>s\<close> after stripping some number of leading characters, each a
  member of \<open>rs\<close>.
\<close>

inductive strips :: "nat list \<Rightarrow> string \<Rightarrow> string \<Rightarrow> bool" for rs :: "nat list" where
  strips_done: "strips rs s s"
| strips_more: "s \<noteq> [] \<Longrightarrow> fst (DecodeRuneInString s) \<in> set rs
     \<Longrightarrow> strips rs (drop (rune_width s) s) s' \<Longrightarrow> strips rs s s'"

code_pred strips .

text \<open>
  The encoders that exist at run time: the one \<^verbatim>\<open>Init\<close> makes, and what a call of
  \<^verbatim>\<open>Encode\<close> leaves of one.
\<close>

inductive reachable :: "OpenTsdbRawEncoder \<Rightarrow> bool" where
  init: "reachable (Init cfg host)"
| step: "reachable oe \<Longrightarrow> reachable (snd (Encode ffmt now oe pack))"

subsection \<open>Example inputs\<close>

text \<open>
  A float rendering to run the examples with (none of them holds a float), a record of
  the series \<^verbatim>\<open>cpu\<close> with an integer value, and an encoder with a window of 60
  seconds and no host name, fresh and after one, two and three records.
\<close>

definition ffmt0 :: "64 word \<Rightarrow> string" where
  "ffmt0 d = ''0''"

definition cpu_record :: "64 word \<Rightarrow> 64 word \<Rightarrow> Message" where
  "cpu_record v t =
     \<lparr>Fields = [(''Metric'', VString ''cpu''), (''Value'', VInteger v)], Timestamp = t\<rparr>"

definition window60 :: OpenTsdbRawEncoder where
  "window60 = Init (ConfigStruct\<lparr>DedupeFlush := 60\<rparr>) []"

definition seen_once :: OpenTsdbRawEncoder where
  "seen_once = snd (Encode ffmt0 0 window60 (cpu_record 1 0))"

definition seen_twice :: OpenTsdbRawEncoder where
  "seen_twice = snd (Encode ffmt0 0 seen_once (cpu_record 1 10000000000))"

definition seen_thrice :: OpenTsdbRawEncoder where
  "seen_thrice = snd (Encode ffmt0 0 seen_twice (cpu_record 2 20000000000))"

definition line :: "string \<Rightarrow> string" where
  "line s = s @ [CHR 0x0A]"

text \<open>
  Configurations with a tag-name prefix: both prefixes a dot, and an underscore with
  the value prefix left to \<^verbatim>\<open>Init\<close>. A record of a given metric text with the
  integer value 1 at time 0.
\<close>

definition dotted :: OpenTsdbRawEncoderConfig where
  "dotted = ConfigStruct\<lparr>TagNamePrefix := ''.'', TagValuePrefix := ''.''\<rparr>"

definition underscored :: OpenTsdbRawEncoderConfig where
  "underscored = ConfigStruct\<lparr>TagNamePrefix := ''_''\<rparr>"

definition metric_record :: "string \<Rightarrow> Message" where
  "metric_record m =
     \<lparr>Fields = [(''Metric'', VString m), (''Value'', VInteger 1)], Timestamp = 0\<rparr>"

section \<open>Properties\<close>

subsection \<open>Dedupe\<close>

lemma Encode_render:
  "render ffmt now oe pack = Inr r \<Longrightarrow> Encode ffmt now oe pack = dedupe_step ffmt oe r"
  by (simp add: Encode_def)

text \<open>
  \<^verbatim>\<open>Encode\<close> never changes the configuration, and with a window of zero or less it
  leaves the encoder as it was; so the map of a run-time encoder holds a state only
  when the window is greater than zero.
\<close>

lemma dedupe_step_config: "config (snd (dedupe_step ffmt oe r)) = config oe"
  by (simp add: dedupe_step_def Let_def split: option.splits)

lemma Encode_config: "config (snd (Encode ffmt now oe pack)) = config oe"
  by (simp add: Encode_def dedupe_step_config split: sum.splits)

lemma dedupe_step_bypass:
  "\<not> 0 < sint (DedupeFlush (config oe)) \<Longrightarrow> snd (dedupe_step ffmt oe r) = oe"
  by (simp add: dedupe_step_def)

lemma Encode_bypass:
  "\<not> 0 < sint (DedupeFlush (config oe)) \<Longrightarrow> snd (Encode ffmt now oe pack) = oe"
  by (simp add: Encode_def dedupe_step_bypass split: sum.splits)

lemma reachable_empty_without_window:
  "reachable oe \<Longrightarrow> \<not> 0 < sint (DedupeFlush (config oe)) \<Longrightarrow> dedupeBuffer oe = Map.empty"
proof (induction rule: reachable.induct)
  case (init cfg host)
  show ?case by (simp add: Init_def)
next
  case (step oe ffmt now pack)
  from step.prems have w: "\<not> 0 < sint (DedupeFlush (config oe))"
    by (simp add: Encode_config)
  then have "snd (Encode ffmt now oe pack) = oe" by (rule Encode_bypass)
  with step.IH [OF w] show ?case by simp
qed

lemma prior_state_needs_window:
  assumes "reachable oe" and "dedupeBuffer oe k = Some p"
  shows "0 < sint (DedupeFlush (config oe))"
proof (rule ccontr)
  assume "\<not> 0 < sint (DedupeFlush (config oe))"
  with assms(1) have "dedupeBuffer oe = Map.empty" by (rule reachable_empty_without_window)
  with assms(2) show False by simp
qed

lemma exact_window_is_boundary:
  assumes "sint t - sint (ts prev) = sint (DedupeFlush cfg) * 1000000000"
  shows "elapsed t prev = window cfg"
proof -
  have "t - ts prev = word_of_int (sint t - sint (ts prev))" by simp
  also have "\<dots> = word_of_int (sint (DedupeFlush cfg) * 1000000000)" using assms by simp
  also have "\<dots> = DedupeFlush cfg * 1000000000" by simp
  finally show ?thesis by (simp add: elapsed_def window_def)
qed

text \<open>
  Where nothing overflows, the two \<^verbatim>\<open>int64\<close> quantities are the numbers one
  expects: the window is the seconds times \<^verbatim>\<open>1e9\<close> for up to 9223372036 seconds, and
  the elapsed time is the difference of the two timestamps when that fits 64 bits.
\<close>

lemma window_exact:
  assumes "0 \<le> sint (DedupeFlush cfg)" and "sint (DedupeFlush cfg) \<le> 9223372036"
  shows "window cfg = sint (DedupeFlush cfg) * 1000000000"
proof -
  have "window cfg = signed_take_bit 63 (sint (DedupeFlush cfg) * 1000000000)"
    by (simp add: window_def sint_word_ariths)
  also from assms have "\<dots> = sint (DedupeFlush cfg) * 1000000000"
    by (intro signed_take_bit_int_eq_self) simp_all
  finally show ?thesis .
qed

lemma elapsed_exact:
  assumes "- 9223372036854775808 \<le> sint t - sint (ts prev)"
    and "sint t - sint (ts prev) \<le> 9223372036854775807"
  shows "elapsed t prev = sint t - sint (ts prev)"
proof -
  have "elapsed t prev = signed_take_bit 63 (sint t - sint (ts prev))"
    by (simp add: elapsed_def sint_word_ariths)
  also from assms have "\<dots> = sint t - sint (ts prev)"
    by (intro signed_take_bit_int_eq_self) simp_all
  finally show ?thesis .
qed

text \<open>
  "The value is unchanged" is \<^verbatim>\<open>==\<close> throughout: an integer is never equal to a text
  or a float, and a NaN is not equal to itself.
\<close>

lemma NaN_differs_from_itself:
  "\<not> iface_eq (VDouble 0x7FF8000000000000) (VDouble 0x7FF8000000000000)"
  by (simp add: float64_eq_def float64_isNaN_def float64_magnitude_def)

lemma iface_eq_same_integer: "iface_eq (VInteger i) (VInteger i)"
  by simp

lemma iface_eq_same_text: "iface_eq (VString s) (VString s)"
  by simp

text \<open>
  Whenever a call with a window greater than zero returns an output, line 188 stores
  that output as the series' line, with \<^verbatim>\<open>skipped = false\<close>, the record's value and
  the record's timestamp.
\<close>

lemma emitted_output_is_stored:
  assumes "render ffmt now oe pack = Inr r"
    and "0 < sint (DedupeFlush (config oe))"
    and "fst (Encode ffmt now oe pack) = Inr (Some out)"
  shows "dedupeBuffer (snd (Encode ffmt now oe pack)) (bufkey ffmt r) =
           Some \<lparr>data = out, skipped = False, ts = timestamp r, val = fval r\<rparr>"
  using assms
  by (auto simp: Encode_render dedupe_step_def Let_def split: option.splits if_splits)

text \<open>
  C2. With a window greater than zero, a record whose series key has a stored state,
  whose value is equal (\<^verbatim>\<open>==\<close>) to the stored one and whose elapsed time since the
  stored timestamp is below the window (both computed in \<^verbatim>\<open>int64\<close>, as line 168
  does; \<open>window_exact\<close> and \<open>elapsed_exact\<close> say when they are the plain numbers)
  is suppressed: \<^verbatim>\<open>Encode\<close> returns \<^verbatim>\<open>(nil, nil)\<close>, and the stored state becomes the
  candidate line, \<^verbatim>\<open>skipped = true\<close>, the value, and the stored timestamp as it was.
\<close>

theorem suppressed_within_window:
  assumes "render ffmt now oe pack = Inr r"
    and "0 < sint (DedupeFlush (config oe))"
    and "dedupeBuffer oe (bufkey ffmt r) = Some prev"
    and "iface_eq (val prev) (fval r)"
    and "elapsed (timestamp r) prev < window (config oe)"
  shows "Encode ffmt now oe pack =
           (Inr None,
            oe\<lparr>dedupeBuffer := (dedupeBuffer oe)(bufkey ffmt r \<mapsto>
                 \<lparr>data = buf r, skipped = True, ts = ts prev, val = fval r\<rparr>)\<rparr>)"
  using assms by (simp add: Encode_render dedupe_step_def)

text \<open>
  The spec's example: window 60 s, the same series and value 10 s apart. The first
  record emits its line, the second emits nothing.
\<close>

theorem suppressed_within_window_witness:
  "fst (Encode ffmt0 0 window60 (cpu_record 1 0)) = Inr (Some (line ''put cpu 0 1'')) \<and>
   Encode ffmt0 0 seen_once (cpu_record 1 10000000000) =
     (Inr None,
      seen_once\<lparr>dedupeBuffer := (dedupeBuffer seen_once)(''cpu:'' \<mapsto>
        \<lparr>data = line ''put cpu 10 1'', skipped = True, ts = 0, val = VInteger 1\<rparr>)\<rparr>)"
proof -
  let ?r = "\<lparr>buf = line ''put cpu 10 1'', ftags = [], metric = VString ''cpu'',
             fval = VInteger 1, timestamp = 10000000000\<rparr>"
  let ?prev = "\<lparr>data = line ''put cpu 0 1'', skipped = False, ts = 0, val = VInteger 1\<rparr>"
  have first: "fst (Encode ffmt0 0 window60 (cpu_record 1 0)) = Inr (Some (line ''put cpu 0 1''))"
    by code_simp
  have r: "render ffmt0 0 seen_once (cpu_record 1 10000000000) = Inr ?r"
    by code_simp
  have w: "0 < sint (DedupeFlush (config seen_once))"
    by code_simp
  have p: "dedupeBuffer seen_once (bufkey ffmt0 ?r) = Some ?prev"
    by code_simp
  have e: "iface_eq (val ?prev) (fval ?r)"
    by simp
  have l: "elapsed (timestamp ?r) ?prev < window (config seen_once)"
    by code_simp
  have k: "bufkey ffmt0 ?r = ''cpu:''"
    by code_simp
  from suppressed_within_window [OF r w p e l] first show ?thesis
    by (simp add: k)
qed



text \<open>
  C6. For an encoder that exists at run time, a record whose series key has a stored
  state, whose value is equal (\<^verbatim>\<open>==\<close>) to the stored one and whose elapsed time is equal to the
  window (both in \<^verbatim>\<open>int64\<close>; by \<open>exact_window_is_boundary\<close> this covers elapsed
  nanoseconds that are the window's seconds times \<^verbatim>\<open>1e9\<close> as numbers) is not
  suppressed: the output is the candidate line alone, and the stored state becomes that
  line, \<^verbatim>\<open>skipped = false\<close>, the value and the record's timestamp.
\<close>

theorem boundary_not_suppressed:
  assumes "reachable oe"
    and "render ffmt now oe pack = Inr r"
    and "dedupeBuffer oe (bufkey ffmt r) = Some prev"
    and "iface_eq (val prev) (fval r)"
    and "elapsed (timestamp r) prev = window (config oe)"
  shows "Encode ffmt now oe pack =
           (Inr (Some (buf r)),
            oe\<lparr>dedupeBuffer := (dedupeBuffer oe)(bufkey ffmt r \<mapsto>
                 \<lparr>data = buf r, skipped = False, ts = timestamp r, val = fval r\<rparr>)\<rparr>)"
proof -
  from assms(1,3) have "0 < sint (DedupeFlush (config oe))" by (rule prior_state_needs_window)
  with assms(2-) show ?thesis by (simp add: Encode_render dedupe_step_def Let_def)
qed

text \<open>
  The spec's example: window 60 s, the same series and value exactly 60 s apart.
\<close>

theorem boundary_not_suppressed_witness:
  "reachable seen_once \<and>
   dedupeBuffer seen_once ''cpu:'' =
     Some \<lparr>data = line ''put cpu 0 1'', skipped = False, ts = 0, val = VInteger 1\<rparr> \<and>
   elapsed 60000000000 \<lparr>data = line ''put cpu 0 1'', skipped = False, ts = 0, val = VInteger 1\<rparr>
     = window (config seen_once) \<and>
   Encode ffmt0 0 seen_once (cpu_record 1 60000000000) =
     (Inr (Some (line ''put cpu 60 1'')),
      seen_once\<lparr>dedupeBuffer := (dedupeBuffer seen_once)(''cpu:'' \<mapsto>
        \<lparr>data = line ''put cpu 60 1'', skipped = False, ts = 60000000000,
         val = VInteger 1\<rparr>)\<rparr>)"
proof -
  let ?pack = "cpu_record 1 60000000000"
  let ?r = "\<lparr>buf = line ''put cpu 60 1'', ftags = [], metric = VString ''cpu'',
             fval = VInteger 1, timestamp = 60000000000\<rparr>"
  let ?prev = "\<lparr>data = line ''put cpu 0 1'', skipped = False, ts = 0, val = VInteger 1\<rparr>"
  have reach: "reachable seen_once"
    unfolding seen_once_def window60_def by (rule reachable.step) (rule reachable.init)
  have r: "render ffmt0 0 seen_once ?pack = Inr ?r"
    by code_simp
  have k: "bufkey ffmt0 ?r = ''cpu:''"
    by code_simp
  have p: "dedupeBuffer seen_once ''cpu:'' = Some ?prev"
    by code_simp
  have p': "dedupeBuffer seen_once (bufkey ffmt0 ?r) = Some ?prev"
    using p k by simp
  have e: "iface_eq (val ?prev) (fval ?r)"
    by simp
  have b: "elapsed 60000000000 ?prev = window (config seen_once)"
    by code_simp
  have b': "elapsed (timestamp ?r) ?prev = window (config seen_once)"
    using b by simp
  from boundary_not_suppressed [OF reach r p' e b'] reach p b show ?thesis
    by (simp add: k)
qed

text \<open>
  C1, at the input where the code departs from it: window 60 s, value 1 at 0 s and at
  10 s (suppressed), value 2 at 20 s. The third call takes the flush branch; its
  candidate line is \<^verbatim>\<open>put cpu 20 2\<close>, but line 188 reads \<^verbatim>\<open>buf\<close> after line 183
  has made it the concatenation, so the stored line holds both data points, and a
  fourth record with value 3 at 100 s puts out three.
\<close>

theorem flush_stores_concatenation:
  "render ffmt0 0 seen_twice (cpu_record 2 20000000000) =
     Inr \<lparr>buf = line ''put cpu 20 2'', ftags = [], metric = VString ''cpu'',
          fval = VInteger 2, timestamp = 20000000000\<rparr> \<and>
   dedupeBuffer seen_thrice ''cpu:'' =
     Some \<lparr>data = line ''put cpu 10 1'' @ line ''put cpu 20 2'', skipped = False,
           ts = 20000000000, val = VInteger 2\<rparr> \<and>
   fst (Encode ffmt0 0 seen_thrice (cpu_record 3 100000000000)) =
     Inr (Some (line ''put cpu 10 1'' @ line ''put cpu 20 2'' @ line ''put cpu 100 3''))"
  by code_simp

subsection \<open>Failures\<close>

lemma split_loop_nonempty: "split_loop s sep \<noteq> []"
  by (subst split_loop.simps) (simp split: option.splits)

lemma Split_nonempty: "sep \<noteq> [] \<Longrightarrow> Split s sep \<noteq> []"
  by (simp add: Split_def split_loop_nonempty)

lemma metric_parts_text:
  assumes "tnp = [] \<or> (\<exists>s. m = VString s)"
  shows "\<exists>name tags. metric_parts ffmt tnp m = Inr (name, tags)"
proof (cases "tnp = []")
  case True
  then show ?thesis by (simp add: metric_parts_def)
next
  case False
  with assms obtain s where m: "m = VString s" by blast
  from False have "Split s tnp \<noteq> []" by (rule Split_nonempty)
  then obtain p tags where "Split s tnp = p # tags" by (cases "Split s tnp") auto
  with False m show ?thesis by (simp add: metric_parts_def)
qed

lemma render_ok:
  assumes "GetFieldValue pack ''Metric'' = Some m"
    and "GetFieldValue pack ''Value'' = Some v"
    and "metric_parts ffmt (TagNamePrefix (config oe)) m = Inr (name, tags)"
  shows "\<exists>r. render ffmt now oe pack = Inr r"
  using assms by (simp add: render_def Let_def split: prod.splits)

lemma dedupe_step_ok: "\<exists>out oe'. dedupe_step ffmt oe r = (Inr out, oe')"
  by (simp add: dedupe_step_def Let_def split: option.splits)

text \<open>
  C7. In the spec's data model the field \<^verbatim>\<open>Metric\<close> is text. For every record
  whose \<^verbatim>\<open>Metric\<close>, when there is one, is text (and, with no tag-name prefix
  configured, for every record whatever its \<^verbatim>\<open>Metric\<close> holds), \<^verbatim>\<open>Encode\<close> fails
  exactly when \<^verbatim>\<open>Metric\<close> or \<^verbatim>\<open>Value\<close> is absent, with the error of the first
  missing field, no output and the encoder unchanged; the tag loops and the dedupe
  step have no failing branch.
\<close>

theorem fails_only_without_metric_or_value:
  assumes "TagNamePrefix (config oe) = [] \<or> GetFieldValue pack ''Metric'' = None \<or>
           (\<exists>s. GetFieldValue pack ''Metric'' = Some (VString s))"
  shows "((\<exists>e. fst (Encode ffmt now oe pack) = Inl e) \<longleftrightarrow>
            GetFieldValue pack ''Metric'' = None \<or> GetFieldValue pack ''Value'' = None) \<and>
         (GetFieldValue pack ''Metric'' = None \<longrightarrow>
            Encode ffmt now oe pack =
              (Inl (Errorf ''Unable to find Field[Metric] in message''), oe)) \<and>
         (GetFieldValue pack ''Metric'' \<noteq> None \<and> GetFieldValue pack ''Value'' = None \<longrightarrow>
            Encode ffmt now oe pack =
              (Inl (Errorf ''Unable to find Field[Value] field in message''), oe))"
proof (cases "GetFieldValue pack ''Metric''")
  case None
  then show ?thesis by (simp add: Encode_def render_def)
next
  case (Some m)
  with assms have "TagNamePrefix (config oe) = [] \<or> (\<exists>s. m = VString s)" by auto
  then obtain name tags where
    parts: "metric_parts ffmt (TagNamePrefix (config oe)) m = Inr (name, tags)"
    using metric_parts_text by blast
  show ?thesis
  proof (cases "GetFieldValue pack ''Value''")
    case None
    with Some parts show ?thesis by (simp add: Encode_def render_def Let_def)
  next
    case (Some v)
    with \<open>GetFieldValue pack ''Metric'' = Some m\<close> parts
    obtain r where r: "render ffmt now oe pack = Inr r"
      using render_ok by blast
    obtain out oe' where "dedupe_step ffmt oe r = (Inr out, oe')"
      using dedupe_step_ok by blast
    with r have "fst (Encode ffmt now oe pack) = Inr out" by (simp add: Encode_def)
    with Some \<open>GetFieldValue pack ''Metric'' = Some m\<close> show ?thesis by simp
  qed
qed

text \<open>A record with a text \<^verbatim>\<open>Metric\<close> and no \<^verbatim>\<open>Value\<close>, under a tag-name prefix.\<close>

theorem fails_only_without_metric_or_value_witness:
  "GetFieldValue \<lparr>Fields = [(''Metric'', VString ''cpu_host.web1'')], Timestamp = 0\<rparr> ''Metric''
     = Some (VString ''cpu_host.web1'') \<and>
   GetFieldValue \<lparr>Fields = [(''Metric'', VString ''cpu_host.web1'')], Timestamp = 0\<rparr> ''Value''
     = None \<and>
   Encode ffmt0 0 (Init underscored [])
       \<lparr>Fields = [(''Metric'', VString ''cpu_host.web1'')], Timestamp = 0\<rparr> =
     (Inl (Errorf ''Unable to find Field[Value] field in message''), Init underscored [])"
proof -
  let ?pack = "\<lparr>Fields = [(''Metric'', VString ''cpu_host.web1'')], Timestamp = 0\<rparr>"
  have m: "GetFieldValue ?pack ''Metric'' = Some (VString ''cpu_host.web1'')"
    by (simp add: GetFieldValue_def)
  have v: "GetFieldValue ?pack ''Value'' = None"
    by (simp add: GetFieldValue_def)
  from m have "TagNamePrefix (config (Init underscored [])) = [] \<or>
      GetFieldValue ?pack ''Metric'' = None \<or>
      (\<exists>s. GetFieldValue ?pack ''Metric'' = Some (VString s))"
    by simp
  from fails_only_without_metric_or_value [OF this, of ffmt0 0] m v show ?thesis
    by simp
qed

text \<open>
  Outside the data model: with the tag-name prefix \<^verbatim>\<open>_\<close> and a record whose
  \<^verbatim>\<open>Metric\<close> is the integer 5, the assertion \<^verbatim>\<open>metric.(string)\<close> of line 91
  panics, where without a prefix line 98 would print the integer.
\<close>

lemma integer_metric_panics:
  "fst (Encode ffmt0 0 (Init underscored [])
         \<lparr>Fields = [(''Metric'', VInteger 5), (''Value'', VInteger 1)], Timestamp = 0\<rparr>) =
     Inl (Panic ''interface conversion: interface {} is int64, not string'') \<and>
   fst (Encode ffmt0 0 (Init ConfigStruct [])
         \<lparr>Fields = [(''Metric'', VInteger 5), (''Value'', VInteger 1)], Timestamp = 0\<rparr>) =
     Inr (Some (line ''put 5 0 1''))"
  by code_simp

subsection \<open>Embedded tags\<close>

lemma embedded_tags_append:
  "embedded_tags tvp (xs @ ys) acc = embedded_tags tvp ys (embedded_tags tvp xs acc)"
proof (induction xs arbitrary: acc)
  case Nil
  show ?case by (cases acc) simp
next
  case (Cons x xs)
  show ?case by (cases acc) (simp add: Let_def Cons.IH)
qed

lemma no_value_prefix_is_malformed:
  assumes "tvp \<noteq> []" and "Index seg tvp = None"
  shows "SplitN2 seg tvp = [seg]"
  using assms by (simp add: SplitN2_def)

text \<open>
  C8. A segment whose split at the first value prefix does not give exactly two
  non-empty parts (by \<open>no_value_prefix_is_malformed\<close>, a segment without the value
  prefix is one) leaves no trace: the loop over the embedded tags ends with the same
  buffer and the same \<^verbatim>\<open>seenHostTag\<close> as if the segment were not in the list. The
  loop has no failing branch.
\<close>

theorem malformed_segment_dropped:
  assumes "\<not> (length (SplitN2 seg tvp) = 2 \<and> SplitN2 seg tvp ! 0 \<noteq> [] \<and> SplitN2 seg tvp ! 1 \<noteq> [])"
  shows "embedded_tags tvp (pre @ seg # post) acc = embedded_tags tvp (pre @ post) acc"
proof -
  obtain b seen where acc: "embedded_tags tvp pre acc = (b, seen)"
    by (cases "embedded_tags tvp pre acc")
  from assms have "embedded_tags tvp (seg # post) (b, seen) = embedded_tags tvp post (b, seen)"
    by (auto simp: Let_def)
  with acc show ?thesis
    by (simp add: embedded_tags_append)
qed

text \<open>
  The spec's example: \<^verbatim>\<open>cpu.hostweb1\<close> with both prefixes a dot; the segment
  \<^verbatim>\<open>hostweb1\<close> has no value prefix and the line has no tag.
\<close>

theorem malformed_segment_dropped_witness:
  "SplitN2 ''hostweb1'' ''.'' = [''hostweb1''] \<and>
   embedded_tags ''.'' [''hostweb1''] (''put cpu 0 1'', False) = (''put cpu 0 1'', False) \<and>
   fst (Encode ffmt0 0 (Init dotted []) (metric_record ''cpu.hostweb1'')) =
     Inr (Some (line ''put cpu 0 1''))"
proof -
  have s: "SplitN2 ''hostweb1'' ''.'' = [''hostweb1'']"
    by code_simp
  then have "\<not> (length (SplitN2 ''hostweb1'' ''.'') = 2 \<and> SplitN2 ''hostweb1'' ''.'' ! 0 \<noteq> [] \<and>
                SplitN2 ''hostweb1'' ''.'' ! 1 \<noteq> [])"
    by simp
  from malformed_segment_dropped [OF this, of "[]" "[]" "(''put cpu 0 1'', False)"]
  have "embedded_tags ''.'' [''hostweb1''] (''put cpu 0 1'', False) = (''put cpu 0 1'', False)"
    by simp
  moreover have "fst (Encode ffmt0 0 (Init dotted []) (metric_record ''cpu.hostweb1'')) =
     Inr (Some (line ''put cpu 0 1''))"
    by code_simp
  ultimately show ?thesis using s by simp
qed

subsection \<open>The rendered line\<close>

text \<open>
  What \<^const>\<open>render\<close> returns when it does not fail: both fields are there, the
  metric has a name and embedded tags, and the buffer is the text of the embedded-tag
  loop, then \<^verbatim>\<open>ftags\<close>, then the fallback host tag if it is due, then a newline.
\<close>

lemma render_Inr:
  assumes "render ffmt now oe pack = Inr r"
  obtains m v name tags where
    "GetFieldValue pack ''Metric'' = Some m"
    "GetFieldValue pack ''Value'' = Some v"
    "metric_parts ffmt (TagNamePrefix (config oe)) m = Inr (name, tags)"
    "r = (let t = (if TsFromMessage (config oe) then Timestamp pack else now);
              e = embedded_tags (TagValuePrefix (config oe)) tags
                    (''put '' @ name @ '' '' @ itoa (Unix t) @ '' '' @ Sprint ffmt v, False);
              f = (if FieldsToTags (config oe)
                   then field_tags ffmt (TagNamePrefix (config oe)) (Fields pack) ([], snd e)
                   else ([], snd e));
              b = (if \<not> snd f \<and> AddHostnameIfMissing (config oe) \<and> hostname oe \<noteq> []
                   then (fst e @ fst f) @ '' host='' @ hostname oe else fst e @ fst f)
          in \<lparr>buf = b @ [CHR 0x0A], ftags = fst f, metric = m, fval = v, timestamp = t\<rparr>)"
proof -
  from assms obtain m where m: "GetFieldValue pack ''Metric'' = Some m"
    by (cases "GetFieldValue pack ''Metric''") (simp_all add: render_def)
  with assms obtain name tags where
    parts: "metric_parts ffmt (TagNamePrefix (config oe)) m = Inr (name, tags)"
    by (cases "metric_parts ffmt (TagNamePrefix (config oe)) m") (auto simp: render_def)
  with assms m obtain v where v: "GetFieldValue pack ''Value'' = Some v"
    by (cases "GetFieldValue pack ''Value''") (simp_all add: render_def Let_def)
  from assms m parts v
  have "r = (let t = (if TsFromMessage (config oe) then Timestamp pack else now);
              e = embedded_tags (TagValuePrefix (config oe)) tags
                    (''put '' @ name @ '' '' @ itoa (Unix t) @ '' '' @ Sprint ffmt v, False);
              f = (if FieldsToTags (config oe)
                   then field_tags ffmt (TagNamePrefix (config oe)) (Fields pack) ([], snd e)
                   else ([], snd e));
              b = (if \<not> snd f \<and> AddHostnameIfMissing (config oe) \<and> hostname oe \<noteq> []
                   then (fst e @ fst f) @ '' host='' @ hostname oe else fst e @ fst f)
          in \<lparr>buf = b @ [CHR 0x0A], ftags = fst f, metric = m, fval = v, timestamp = t\<rparr>)"
    by (simp add: render_def Let_def split_beta split del: if_split cong: if_cong)
  with m v parts show thesis by (rule that)
qed

subsection \<open>Fields promoted to tags\<close>

lemma field_tags_no_prefix:
  "field_tags ffmt [] fs (ft, seen) =
     (ft @ concat (map (\<lambda>(k, v). '' '' @ k @ ''='' @ Sprint ffmt v)
                    (filter (\<lambda>(k, v). k \<noteq> ''Metric'' \<and> k \<noteq> ''Value'') fs)),
      seen \<or> ''host'' \<in> fst ` set fs)"
proof (induction fs arbitrary: ft seen)
  case Nil
  show ?case by simp
next
  case (Cons f fs)
  obtain k v where f: "f = (k, v)" by (cases f)
  show ?case
    by (auto simp: f Cons.IH HasPrefix_def TrimLeft_def Let_def)
qed

text \<open>
  C10. With an empty tag-name prefix and \<^verbatim>\<open>FieldsToTags\<close> on, \<^verbatim>\<open>ftags\<close> is
  \<^verbatim>\<open>" name=value"\<close> for every field but those named \<^verbatim>\<open>Metric\<close> and
  \<^verbatim>\<open>Value\<close>, in the order of the fields, each under its whole name, and it stands in
  the output line.
\<close>

theorem all_fields_promoted_without_prefix:
  assumes "TagNamePrefix (config oe) = []"
    and "FieldsToTags (config oe)"
    and "render ffmt now oe pack = Inr r"
  shows "ftags r =
           concat (map (\<lambda>(k, v). '' '' @ k @ ''='' @ Sprint ffmt v)
                    (filter (\<lambda>(k, v). k \<noteq> ''Metric'' \<and> k \<noteq> ''Value'') (Fields pack))) \<and>
         sublist (ftags r) (buf r)"
proof -
  from assms(3) obtain m v name tags where
    r: "r = (let t = (if TsFromMessage (config oe) then Timestamp pack else now);
              e = embedded_tags (TagValuePrefix (config oe)) tags
                    (''put '' @ name @ '' '' @ itoa (Unix t) @ '' '' @ Sprint ffmt v, False);
              f = (if FieldsToTags (config oe)
                   then field_tags ffmt (TagNamePrefix (config oe)) (Fields pack) ([], snd e)
                   else ([], snd e));
              b = (if \<not> snd f \<and> AddHostnameIfMissing (config oe) \<and> hostname oe \<noteq> []
                   then (fst e @ fst f) @ '' host='' @ hostname oe else fst e @ fst f)
          in \<lparr>buf = b @ [CHR 0x0A], ftags = fst f, metric = m, fval = v, timestamp = t\<rparr>)"
    by (rule render_Inr)
  from r assms(1,2) have "ftags r =
           concat (map (\<lambda>(k, v). '' '' @ k @ ''='' @ Sprint ffmt v)
                    (filter (\<lambda>(k, v). k \<noteq> ''Metric'' \<and> k \<noteq> ''Value'') (Fields pack)))"
    by (simp add: Let_def field_tags_no_prefix)
  moreover from r have "\<exists>ps ss. buf r = ps @ ftags r @ ss"
    by (simp add: Let_def) blast
  then have "sublist (ftags r) (buf r)"
    by (simp add: sublist_def)
  ultimately show ?thesis by simp
qed

text \<open>
  A record with the fields \<^verbatim>\<open>dc\<close> and \<^verbatim>\<open>rack\<close> under the default configuration
  and the host name \<^verbatim>\<open>h1\<close>.
\<close>

theorem all_fields_promoted_without_prefix_witness:
  "render ffmt0 0 (Init ConfigStruct ''h1'')
       \<lparr>Fields = [(''Metric'', VString ''cpu''), (''dc'', VString ''east''),
                  (''Value'', VInteger 1), (''rack'', VInteger 7)], Timestamp = 0\<rparr> =
     Inr \<lparr>buf = line ''put cpu 0 1 dc=east rack=7 host=h1'', ftags = '' dc=east rack=7'',
          metric = VString ''cpu'', fval = VInteger 1, timestamp = 0\<rparr> \<and>
   sublist '' dc=east rack=7'' (line ''put cpu 0 1 dc=east rack=7 host=h1'')"
proof -
  let ?oe = "Init ConfigStruct ''h1''"
  let ?pack = "\<lparr>Fields = [(''Metric'', VString ''cpu''), (''dc'', VString ''east''),
                  (''Value'', VInteger 1), (''rack'', VInteger 7)], Timestamp = 0\<rparr>"
  let ?r = "\<lparr>buf = line ''put cpu 0 1 dc=east rack=7 host=h1'', ftags = '' dc=east rack=7'',
          metric = VString ''cpu'', fval = VInteger 1, timestamp = 0\<rparr>"
  have p: "TagNamePrefix (config ?oe) = []"
    by (simp add: Init_def ConfigStruct_def)
  have f: "FieldsToTags (config ?oe)"
    by (simp add: Init_def ConfigStruct_def)
  have r: "render ffmt0 0 ?oe ?pack = Inr ?r"
    by code_simp
  from all_fields_promoted_without_prefix [OF p f r]
  have "sublist (ftags ?r) (buf ?r)"
    by (rule conjunct2)
  then have "sublist '' dc=east rack=7'' (line ''put cpu 0 1 dc=east rack=7 host=h1'')"
    by simp
  with r show ?thesis
    by (rule conjI)
qed

subsection \<open>The trim of a promoted field's name\<close>

lemma mod_window:
  fixes n :: nat
  assumes "q * m + lo \<le> n" and "n < q * m + hi" and "hi \<le> m"
  shows "lo \<le> n mod m"
proof -
  define k where "k = n - q * m"
  from assms have n: "n = q * m + k" and k: "lo \<le> k" "k < m"
    by (simp_all add: k_def)
  have "n mod m = k mod m" by (simp add: n)
  with k show ?thesis by simp
qed

lemma lead2_bits: "194 \<le> s0 \<Longrightarrow> s0 < 224 \<Longrightarrow> (2::nat) \<le> s0 mod 32"
  using mod_window [of 6 32 2 s0 32] by simp

lemma lead3_bits: "224 < s0 \<Longrightarrow> s0 < 240 \<Longrightarrow> (1::nat) \<le> s0 mod 16"
  using mod_window [of 14 16 1 s0 16] by simp

lemma second3_bits: "160 \<le> s1 \<Longrightarrow> s1 \<le> 191 \<Longrightarrow> (32::nat) \<le> s1 mod 64"
  using mod_window [of 2 64 32 s1 64] by simp

lemma lead4_bits: "240 < s0 \<Longrightarrow> s0 \<le> 244 \<Longrightarrow> (1::nat) \<le> s0 mod 8"
  using mod_window [of 30 8 1 s0 5] by simp

lemma second4_bits: "144 \<le> s1 \<Longrightarrow> s1 \<le> 191 \<Longrightarrow> (16::nat) \<le> s1 mod 64"
  using mod_window [of 2 64 16 s1 64] by simp

text \<open>An ASCII byte decodes to itself; any other first byte to a code point from 128 on.\<close>

lemma decode_ascii:
  "(of_char c :: nat) < 128 \<Longrightarrow> DecodeRuneInString (c # r) = (of_char c, 1)"
  by (simp add: Let_def)

lemma decode_high:
  assumes "128 \<le> (of_char c :: nat)"
  shows "128 \<le> fst (DecodeRuneInString (c # r))"
proof -
  define s0 :: nat where "s0 = of_char c"
  define s1 :: nat where "s1 = of_char (r ! 0)"
  define s2 :: nat where "s2 = of_char (r ! Suc 0)"
  define s3 :: nat where "s3 = of_char (r ! 2)"
  note defs = s0_def [symmetric] s1_def [symmetric] s2_def [symmetric] s3_def [symmetric]
  from assms have s0: "128 \<le> s0" by (simp add: s0_def)
  consider "s0 < 194 \<or> 244 < s0" | "194 \<le> s0" "s0 < 224" | "s0 = 224" | "224 < s0" "s0 < 240"
    | "s0 = 240" | "240 < s0" "s0 \<le> 244"
    by linarith
  then show ?thesis
  proof cases
    case 1
    with s0 show ?thesis by (auto simp: Let_def defs RuneError_def)
  next
    case 2
    from 2 have "2 \<le> s0 mod 32" by (rule lead2_bits)
    then have "128 \<le> s0 mod 32 * 64 + s1 mod 64" by simp
    with 2 s0 show ?thesis
      by (simp add: Let_def defs RuneError_def)
  next
    case 3
    have "160 \<le> s1 \<Longrightarrow> s1 \<le> 191 \<Longrightarrow> 128 \<le> s0 mod 16 * 4096 + s1 mod 64 * 64 + s2 mod 64"
      using second3_bits [of s1] by simp
    with 3 show ?thesis
      by (simp add: Let_def defs RuneError_def)
  next
    case 4
    from 4 have "1 \<le> s0 mod 16" by (rule lead3_bits)
    then have "128 \<le> s0 mod 16 * 4096 + s1 mod 64 * 64 + s2 mod 64" by simp
    with 4 show ?thesis
      by (simp add: Let_def defs RuneError_def)
  next
    case 5
    have "144 \<le> s1 \<Longrightarrow> s1 \<le> 191 \<Longrightarrow>
          128 \<le> s0 mod 8 * 262144 + s1 mod 64 * 4096 + s2 mod 64 * 64 + s3 mod 64"
      using second4_bits [of s1] by simp
    with 5 show ?thesis
      by (simp add: Let_def defs RuneError_def)
  next
    case 6
    from 6 have "1 \<le> s0 mod 8" by (rule lead4_bits)
    then have "128 \<le> s0 mod 8 * 262144 + s1 mod 64 * 4096 + s2 mod 64 * 64 + s3 mod 64" by simp
    with 6 show ?thesis
      by (simp add: Let_def defs RuneError_def)
  qed
qed

lemma runes_Nil: "runes [] = []"
  by (simp add: runes.simps)

lemma runes_ascii:
  "\<forall>c\<in>set cs. (of_char c :: nat) < 128 \<Longrightarrow> runes cs = map of_char cs"
proof (induction cs)
  case Nil
  show ?case by (simp add: runes_Nil)
next
  case (Cons c cs)
  then have "(of_char c :: nat) < 128" by simp
  then have "DecodeRuneInString (c # cs) = (of_char c, 1)" by (rule decode_ascii)
  then have "runes (c # cs) = of_char c # runes cs"
    by (subst runes.simps) (simp add: rune_width_def)
  with Cons show ?case by simp
qed

text \<open>With an ASCII cutset the trim works byte by byte.\<close>

lemma trimLeftUnicode_ascii:
  assumes "\<forall>r\<in>set rs. r < 128"
  shows "trimLeftUnicode s rs = dropWhile (\<lambda>c. of_char c \<in> set rs) s"
proof (induction s)
  case Nil
  show ?case by (simp add: trimLeftUnicode.simps)
next
  case (Cons c t)
  show ?case
  proof (cases "(of_char c :: nat) < 128")
    case True
    then have "DecodeRuneInString (c # t) = (of_char c, 1)" by (rule decode_ascii)
    then show ?thesis
      by (subst trimLeftUnicode.simps) (simp add: rune_width_def Cons.IH)
  next
    case False
    then have "128 \<le> (of_char c :: nat)" by simp
    then have "128 \<le> fst (DecodeRuneInString (c # t))" by (rule decode_high)
    with assms have "fst (DecodeRuneInString (c # t)) \<notin> set rs" by fastforce
    moreover from False assms have "(of_char c :: nat) \<notin> set rs" by fastforce
    ultimately show ?thesis
      by (subst trimLeftUnicode.simps) simp
  qed
qed

lemma TrimLeft_ascii:
  assumes "\<forall>c\<in>set cutset. (of_char c :: nat) < 128"
  shows "TrimLeft s cutset = dropWhile (\<lambda>c. c \<in> set cutset) s"
proof (cases "s = [] \<or> cutset = []")
  case True
  then show ?thesis by (auto simp: TrimLeft_def)
next
  case False
  from assms have rs: "runes cutset = map of_char cutset" by (rule runes_ascii)
  from assms have "\<forall>r\<in>set (map of_char cutset :: nat list). r < 128" by simp
  then have "trimLeftUnicode s (map of_char cutset) =
      dropWhile (\<lambda>c. (of_char c :: nat) \<in> set (map of_char cutset)) s"
    by (rule trimLeftUnicode_ascii)
  moreover have "(\<lambda>c. (of_char c :: nat) \<in> set (map of_char cutset)) = (\<lambda>c. c \<in> set cutset)"
    by (auto simp: image_iff)
  ultimately show ?thesis using False rs by (simp add: TrimLeft_def)
qed

text \<open>
  For any cutset the trim is the spec's repeated stripping, taken as far as it goes.
\<close>

lemma strips_trimLeftUnicode: "strips rs s (trimLeftUnicode s rs)"
proof (induction s rs rule: trimLeftUnicode.induct)
  case (1 s rs)
  show ?case
  proof (cases "s \<noteq> [] \<and> fst (DecodeRuneInString s) \<in> set rs")
    case True
    with "1.IH" have "strips rs (drop (rune_width s) s) (trimLeftUnicode (drop (rune_width s) s) rs)"
      by simp
    with True have "strips rs s (trimLeftUnicode (drop (rune_width s) s) rs)"
      by (auto intro: strips_more)
    with True show ?thesis by (subst trimLeftUnicode.simps) simp
  next
    case False
    then have "trimLeftUnicode s rs = s" by (subst trimLeftUnicode.simps) auto
    then show ?thesis by (simp add: strips_done)
  qed
qed

lemma trimLeftUnicode_maximal:
  "trimLeftUnicode s rs = [] \<or> fst (DecodeRuneInString (trimLeftUnicode s rs)) \<notin> set rs"
proof (induction s rs rule: trimLeftUnicode.induct)
  case (1 s rs)
  show ?case
  proof (cases "s \<noteq> [] \<and> fst (DecodeRuneInString s) \<in> set rs")
    case True
    then have "trimLeftUnicode s rs = trimLeftUnicode (drop (rune_width s) s) rs"
      by (subst trimLeftUnicode.simps) simp
    with True "1.IH" show ?thesis by simp
  next
    case False
    then have "trimLeftUnicode s rs = s" by (subst trimLeftUnicode.simps) auto
    with False show ?thesis by auto
  qed
qed

lemma strips_TrimLeft: "strips (runes cutset) s (TrimLeft s cutset)"
  by (simp add: TrimLeft_def strips_trimLeftUnicode strips_done)

lemma TrimLeft_maximal:
  "TrimLeft s cutset = [] \<or> fst (DecodeRuneInString (TrimLeft s cutset)) \<notin> set (runes cutset)"
  using trimLeftUnicode_maximal [of s "runes cutset"]
  by (auto simp: TrimLeft_def runes_Nil)

text \<open>
  C9. A field that is promoted (its name has the tag-name prefix and is neither
  \<^verbatim>\<open>Metric\<close> nor \<^verbatim>\<open>Value\<close>) is written as \<^verbatim>\<open>" key=value"\<close> with the key
  \<^verbatim>\<open>strings.TrimLeft(name, prefix)\<close>: the name after repeatedly stripping leading
  characters that are members of the prefix's characters, until the first character is
  none or the name is used up; for an ASCII prefix this is dropping leading bytes while
  they occur in the prefix. It is not the removal of one occurrence of the prefix
  (\<^const>\<open>TrimPrefix\<close>), as the witness shows.
\<close>

theorem promoted_key_is_class_trim:
  assumes "HasPrefix k tnp" and "k \<noteq> ''Metric''" and "k \<noteq> ''Value''"
  shows "field_tags ffmt tnp ((k, v) # fs) (ft, seen) =
           field_tags ffmt tnp fs
             (ft @ '' '' @ TrimLeft k tnp @ ''='' @ Sprint ffmt v, seen \<or> TrimLeft k tnp = ''host'') \<and>
         strips (runes tnp) k (TrimLeft k tnp) \<and>
         (TrimLeft k tnp = [] \<or> fst (DecodeRuneInString (TrimLeft k tnp)) \<notin> set (runes tnp)) \<and>
         ((\<forall>c\<in>set tnp. (of_char c :: nat) < 128) \<longrightarrow>
            TrimLeft k tnp = dropWhile (\<lambda>c. c \<in> set tnp) k)"
  using assms
  by (simp add: Let_def strips_TrimLeft TrimLeft_maximal TrimLeft_ascii)

text \<open>
  The prefix \<^verbatim>\<open>tag_\<close> and the field \<^verbatim>\<open>tag_gate\<close>: the key is \<^verbatim>\<open>e\<close>, where
  removing the prefix once would leave \<^verbatim>\<open>gate\<close>.
\<close>

theorem promoted_key_is_class_trim_witness:
  "HasPrefix ''tag_gate'' ''tag_'' \<and>
   field_tags ffmt0 ''tag_'' [(''tag_gate'', VString ''x'')] ([], False) = ('' e=x'', False) \<and>
   strips (runes ''tag_'') ''tag_gate'' ''e'' \<and>
   dropWhile (\<lambda>c. c \<in> set ''tag_'') ''tag_gate'' = ''e'' \<and>
   TrimLeft ''tag_gate'' ''tag_'' = ''e'' \<and>
   TrimPrefix ''tag_gate'' ''tag_'' = ''gate''"
proof -
  have h: "HasPrefix ''tag_gate'' ''tag_''"
    by code_simp
  have t: "TrimLeft ''tag_gate'' ''tag_'' = ''e''"
    by code_simp
  have p: "TrimPrefix ''tag_gate'' ''tag_'' = ''gate''"
    by code_simp
  have a: "\<forall>c\<in>set ''tag_''. (of_char c :: nat) < 128"
    by simp
  have n: "''tag_gate'' \<noteq> ''Metric''" "''tag_gate'' \<noteq> ''Value''"
    by simp_all
  note inst = promoted_key_is_class_trim [OF h n, where ffmt = ffmt0 and v = "VString ''x''"
      and fs = "[]" and ft = "[]" and seen = False]
  from inst [THEN conjunct1]
  have f: "field_tags ffmt0 ''tag_'' [(''tag_gate'', VString ''x'')] ([], False) = ('' e=x'', False)"
    by (simp only: t) simp
  from inst [THEN conjunct2, THEN conjunct1]
  have s: "strips (runes ''tag_'') ''tag_gate'' ''e''"
    by (simp only: t)
  from inst [THEN conjunct2, THEN conjunct2, THEN conjunct2] a
  have "TrimLeft ''tag_gate'' ''tag_'' = dropWhile (\<lambda>c. c \<in> set ''tag_'') ''tag_gate''"
    by (rule mp)
  then have d: "dropWhile (\<lambda>c. c \<in> set ''tag_'') ''tag_gate'' = ''e''"
    by (simp only: t)
  from h f s d t p show ?thesis by blast
qed

text \<open>
  C5, at the input where the code departs from it: default configuration, host name
  \<^verbatim>\<open>h1\<close>, a field named \<^verbatim>\<open>Host\<close>. Line 144 compares the key with \<^verbatim>\<open>"host"\<close>
  as it is, so the tag \<^verbatim>\<open>Host=web1\<close> does not count and the fallback tag is added.
  The embedded-tag loop lower-cases the key first (line 126): the same tag embedded in
  the metric name keeps the fallback tag away.
\<close>

theorem capitalised_field_host_not_seen:
  "fst (Encode ffmt0 0 (Init ConfigStruct ''h1'')
         \<lparr>Fields = [(''Metric'', VString ''cpu''), (''Value'', VInteger 1),
                    (''Host'', VString ''web1'')], Timestamp = 0\<rparr>) =
     Inr (Some (line ''put cpu 0 1 Host=web1 host=h1'')) \<and>
   fst (Encode ffmt0 0 (Init underscored ''h1'') (metric_record ''cpu_Host.web1'')) =
     Inr (Some (line ''put cpu 0 1Host=web1''))"
  by code_simp

subsection \<open>Well-formed embedded tags\<close>

text \<open>
  What line 129 writes for a segment that splits at the first value prefix into a
  non-empty key and a non-empty value: the key, \<^verbatim>\<open>=\<close> and the value, appended to
  the buffer as it stands, with nothing in between.
\<close>

lemma well_formed_segment_appended:
  assumes "SplitN2 seg tvp = [k, v]" and "k \<noteq> []" and "v \<noteq> []"
  shows "embedded_tags tvp (seg # tags) (b, seen) =
           embedded_tags tvp tags (b @ k @ ''='' @ v, seen \<or> ToLower k = ''host'')"
  using assms by (simp add: Let_def)

text \<open>
  C4, at the input where the code departs from it: the metric \<^verbatim>\<open>cpu_host.web1\<close>
  with the tag-name prefix \<^verbatim>\<open>_\<close> and the value prefix \<^verbatim>\<open>.\<close>. The name is
  \<^verbatim>\<open>cpu\<close> and the segment \<^verbatim>\<open>host.web1\<close> splits into \<^verbatim>\<open>host\<close> and
  \<^verbatim>\<open>web1\<close>, but line 129 formats \<^verbatim>\<open>"%s=%s"\<close> with no leading space, so the tag
  follows the value directly and \<^verbatim>\<open>" host=web1"\<close> is not in the line. The field
  loop (line 147) writes the space: the same tag from a field \<^verbatim>\<open>_host\<close> is set off
  from the value.
\<close>

theorem embedded_tag_lacks_space:
  "Split ''cpu_host.web1'' ''_'' = [''cpu'', ''host.web1''] \<and>
   SplitN2 ''host.web1'' ''.'' = [''host'', ''web1''] \<and>
   fst (Encode ffmt0 0 (Init underscored []) (metric_record ''cpu_host.web1'')) =
     Inr (Some (line ''put cpu 0 1host=web1'')) \<and>
   \<not> sublist '' host=web1'' (line ''put cpu 0 1host=web1'') \<and>
   fst (Encode ffmt0 0 (Init underscored [])
         \<lparr>Fields = [(''Metric'', VString ''cpu''), (''Value'', VInteger 1),
                    (''_host'', VString ''web1'')], Timestamp = 0\<rparr>) =
     Inr (Some (line ''put cpu 0 1 host=web1''))"
  by code_simp

text \<open>
  The example with both prefixes a dot: the split of line 91 cuts
  \<^verbatim>\<open>cpu.host.web1\<close> at every dot, the segments \<^verbatim>\<open>host\<close> and \<^verbatim>\<open>web1\<close> hold no
  value prefix, and the line has no tag.
\<close>

lemma dotted_example_has_no_tag:
  "Split ''cpu.host.web1'' ''.'' = [''cpu'', ''host'', ''web1''] \<and>
   SplitN2 ''host'' ''.'' = [''host''] \<and>
   SplitN2 ''web1'' ''.'' = [''web1''] \<and>
   fst (Encode ffmt0 0 (Init dotted []) (metric_record ''cpu.host.web1'')) =
     Inr (Some (line ''put cpu 0 1'')) \<and>
   \<not> sublist ''host=web1'' (line ''put cpu 0 1'')"
  by code_simp

end
